theory Spec2Isabelle
  imports Main "HOL-Library.Code_Target_Nat" "HOL-Library.Word" "HOL-Library.Multiset" "HOL-Library.Sublist"
begin

unbundle bit_operations_syntax

section \<open>Strings and failures\<close>

text \<open>
  A Go \<open>string\<close> is a sequence of bytes: it is modelled as \<open>string\<close>, a list of
  8-bit \<open>char\<close>s, and \<open>len\<close> is \<open>length\<close>.  A run-time panic of the Go code is a value
  of \<open>panic\<close>; a function that can panic returns \<open>panic + 'a\<close>.
\<close>

datatype panic = DivideByZero | SliceBounds | IndexOutOfRange

text \<open>The errors returned by \<open>extractClientKey\<close> and \<open>Extract\<close>, one per message.\<close>

datatype extractError =
    NoPatternMatched
  | CommentKeyFailed
  | LkDbPartFailed
  | LkDbValueFailed
  | KeyValueFailed
  | NoSourcesFound

section \<open>UTF-8: runes of a string\<close>

text \<open>
  \<open>[]rune(s)\<close> and \<open>for i, ch := range s\<close> decode a string as UTF-8; a byte that does not
  start a valid encoding yields the rune \<open>U+FFFD\<close> of width 1.  \<open>decodeRune\<close> returns the
  first rune and its width, as \<open>utf8.DecodeRuneInString\<close> does: the accepted range of the
  second byte depends on the first byte.  A rune is a \<open>nat\<close>.
\<close>

definition RuneError :: nat where
  "RuneError = 0xFFFD"

definition cont :: "nat \<Rightarrow> nat \<Rightarrow> char \<Rightarrow> bool" where
  "cont lo hi c = (lo \<le> (of_char c :: nat) \<and> (of_char c :: nat) \<le> hi)"

fun decodeRune :: "string \<Rightarrow> nat \<times> nat" where
  "decodeRune [] = (RuneError, 0)"
| "decodeRune (c0 # s) =
     (let b0 = (of_char c0 :: nat) in
      if b0 < 0x80 then (b0, 1)
      else if 0xC2 \<le> b0 \<and> b0 \<le> 0xDF then
        (case s of
           c1 # _ \<Rightarrow>
             if cont 0x80 0xBF c1 then ((b0 mod 32) * 64 + of_char c1 mod 64, 2)
             else (RuneError, 1)
         | _ \<Rightarrow> (RuneError, 1))
      else if 0xE0 \<le> b0 \<and> b0 \<le> 0xEF then
        (case s of
           c1 # c2 # _ \<Rightarrow>
             if cont (if b0 = 0xE0 then 0xA0 else 0x80) (if b0 = 0xED then 0x9F else 0xBF) c1
                \<and> cont 0x80 0xBF c2
             then ((b0 mod 16) * 4096 + (of_char c1 mod 64) * 64 + of_char c2 mod 64, 3)
             else (RuneError, 1)
         | _ \<Rightarrow> (RuneError, 1))
      else if 0xF0 \<le> b0 \<and> b0 \<le> 0xF4 then
        (case s of
           c1 # c2 # c3 # _ \<Rightarrow>
             if cont (if b0 = 0xF0 then 0x90 else 0x80) (if b0 = 0xF4 then 0x8F else 0xBF) c1
                \<and> cont 0x80 0xBF c2 \<and> cont 0x80 0xBF c3
             then ((b0 mod 8) * 262144 + (of_char c1 mod 64) * 4096
                   + (of_char c2 mod 64) * 64 + of_char c3 mod 64, 4)
             else (RuneError, 1)
         | _ \<Rightarrow> (RuneError, 1))
      else (RuneError, 1))"

text \<open>\<open>for i, ch := range s\<close>: the byte offset and rune of each iteration.\<close>

function rangeString :: "nat \<Rightarrow> string \<Rightarrow> (nat \<times> nat) list" where
  "rangeString i [] = []"
| "rangeString i (c # s) =
     (i, fst (decodeRune (c # s)))
       # rangeString (i + snd (decodeRune (c # s))) (drop (snd (decodeRune (c # s)) - 1) s)"
  by pat_completeness auto
termination
  by (relation "measure (\<lambda>(i, s). length s)") auto

text \<open>\<open>[]rune(s)\<close>.\<close>

definition runes :: "string \<Rightarrow> nat list" where
  "runes s = map snd (rangeString 0 s)"

text \<open>
  \<open>string(r)\<close> for one rune, as \<open>utf8.AppendRune\<close>: surrogates and values above
  \<open>U+10FFFF\<close> are encoded as \<open>U+FFFD\<close>.
\<close>

definition encodeRune :: "nat \<Rightarrow> string" where
  "encodeRune r =
     (if r < 0x80 then [char_of r]
      else if r < 0x800 then [char_of (0xC0 + r div 64), char_of (0x80 + r mod 64)]
      else if (0xD800 \<le> r \<and> r \<le> 0xDFFF) \<or> 0x10FFFF < r then [CHR 0xEF, CHR 0xBF, CHR 0xBD]
      else if r < 0x10000 then
        [char_of (0xE0 + r div 4096), char_of (0x80 + (r div 64) mod 64), char_of (0x80 + r mod 64)]
      else
        [char_of (0xF0 + r div 262144), char_of (0x80 + (r div 4096) mod 64),
         char_of (0x80 + (r div 64) mod 64), char_of (0x80 + r mod 64)])"

text \<open>\<open>string(rs)\<close> for a rune slice.\<close>

definition stringOfRunes :: "nat list \<Rightarrow> string" where
  "stringOfRunes rs = concat (map encodeRune rs)"


section \<open>Base64 decoding (decrypt.go, atob)\<close>

text \<open>
  A Go map filled by a loop of assignments \<open>m[k] = v\<close>: a later assignment to the same key
  replaces the earlier one.
\<close>

definition mapFromList :: "('k \<times> 'v) list \<Rightarrow> 'k \<rightharpoonup> 'v" where
  "mapFromList kvs = map_of (rev kvs)"

definition base64Chars :: string where
  "base64Chars = ''ABCDEFGHIJKLMNOPQRSTUVWXYZabcdefghijklmnopqrstuvwxyz0123456789+/''"

text \<open>
  The first loop of \<open>atob\<close> ranges over the runes of \<open>s\<close>, drops \<open>=\<close>, line feed, carriage
  return and space, and appends \<open>byte(c)\<close>, the rune truncated to 8 bits.
\<close>

definition stripped :: "nat \<Rightarrow> bool" where
  "stripped c = (c = 0x3D \<or> c = 0x0A \<or> c = 0x0D \<or> c = 0x20)"

definition atobEncoded :: "string \<Rightarrow> string" where
  "atobEncoded s = map char_of (filter (\<lambda>c. \<not> stripped c) (runes s))"

text \<open>\<open>for len(encoded)%4 != 0 { encoded = append(encoded, '=') }\<close>\<close>

function atobPad :: "string \<Rightarrow> string" where
  "atobPad encoded = (if length encoded mod 4 \<noteq> 0 then atobPad (encoded @ ''='') else encoded)"
  by pat_completeness auto
termination
  by (relation "measure (\<lambda>e. 3 - (length e + 3) mod 4)") (auto, arith)

declare atobPad.simps [simp del]

text \<open>\<open>lookup[byte(c)] = i\<close> for each \<open>i, c\<close> of \<open>base64Chars\<close>.\<close>

definition atobLookup :: "char \<rightharpoonup> nat" where
  "atobLookup = mapFromList (zip base64Chars [0..<length base64Chars])"

text \<open>
  The inner loop over \<open>j\<close> of one group \<open>g = encoded[i:]\<close>: it fills \<open>vals\<close> and sets \<open>count\<close>
  to one more than the last position holding a symbol of the alphabet.
\<close>

function atobInner :: "string \<Rightarrow> nat \<Rightarrow> nat list \<times> nat \<Rightarrow> nat list \<times> nat" where
  "atobInner g j (vals, cnt) =
     (if j < 4 \<and> j < length g then
        (if g ! j = CHR ''='' then atobInner g (j + 1) (vals[j := 0], cnt)
         else (case atobLookup (g ! j) of
                 None \<Rightarrow> atobInner g (j + 1) (vals[j := 0], cnt)
               | Some v \<Rightarrow> atobInner g (j + 1) (vals[j := v], j + 1)))
      else (vals, cnt))"
  by pat_completeness auto
termination
  by (relation "measure (\<lambda>(g, j, vc). 4 - j)") auto

declare atobInner.simps [simp del]

text \<open>The bytes appended for one group, each truncated by \<open>byte(...)\<close>.\<close>

definition atobBytes :: "nat list \<times> nat \<Rightarrow> string" where
  "atobBytes vc =
     (let vals = fst vc; cnt = snd vc in
      (if cnt \<ge> 2 then [char_of (push_bit 2 (vals ! 0) OR drop_bit 4 (vals ! 1))] else [])
      @ (if cnt \<ge> 3 then [char_of (push_bit 4 (vals ! 1 AND 0xf) OR drop_bit 2 (vals ! 2))] else [])
      @ (if cnt \<ge> 4 then [char_of (push_bit 6 (vals ! 2 AND 0x3) OR vals ! 3)] else []))"

text \<open>The outer loop \<open>for i := 0; i < len(encoded); i += 4\<close>.\<close>

function atobGroups :: "string \<Rightarrow> string" where
  "atobGroups encoded =
     (if 0 < length encoded
      then atobBytes (atobInner encoded 0 ([0, 0, 0, 0], 0)) @ atobGroups (drop 4 encoded)
      else [])"
  by pat_completeness auto
termination
  by (relation "measure length") auto

declare atobGroups.simps [simp del]

definition atob :: "string \<Rightarrow> string" where
  "atob s = atobGroups (atobPad (atobEncoded s))"


text \<open>
  The value the decoder assigns to a symbol, stated independently of the lookup table:
  its position in \<open>base64Chars\<close>, and 0 for a symbol outside the alphabet.
\<close>

definition indexOf :: "'a list \<Rightarrow> 'a \<Rightarrow> nat" where
  "indexOf xs x = length (takeWhile (\<lambda>y. y \<noteq> x) xs)"

definition base64Value :: "char \<Rightarrow> nat" where
  "base64Value c = (if c \<in> set base64Chars then indexOf base64Chars c else 0)"

text \<open>
  The decoder in closed form, for comparison with the loops above.  Of the runes of the
  input, \<open>=\<close>, line feed, carriage return and space are deleted and every other rune is
  truncated to its low byte; the result is padded with \<open>=\<close> to a multiple of four.  In a
  group of four symbols, \<open>symbolCount\<close> is the position (counted from 1) of the last
  symbol that belongs to the alphabet, 0 if there is none, and the group yields the
  first \<open>symbolCount - 1\<close> of the three bytes assembled from the values of its symbols.
\<close>

definition symbolCount :: "string \<Rightarrow> nat" where
  "symbolCount g = length (dropWhile (\<lambda>c. c \<notin> set base64Chars) (rev g))"

definition groupBytes :: "char \<Rightarrow> char \<Rightarrow> char \<Rightarrow> char \<Rightarrow> string" where
  "groupBytes a b c d =
     take (symbolCount [a, b, c, d] - 1)
       [char_of (push_bit 2 (base64Value a) OR drop_bit 4 (base64Value b)),
        char_of (push_bit 4 (base64Value b AND 0xf) OR drop_bit 2 (base64Value c)),
        char_of (push_bit 6 (base64Value c AND 0x3) OR base64Value d)]"

fun decodeGroups :: "string \<Rightarrow> string" where
  "decodeGroups (a # b # c # d # rest) = groupBytes a b c d @ decodeGroups rest"
| "decodeGroups _ = []"

definition atobSpec :: "string \<Rightarrow> string" where
  "atobSpec s =
     (let kept = map char_of (filter (\<lambda>r. r \<notin> {0x3D, 0x0A, 0x0D, 0x20}) (runes s));
          padded = kept @ replicate ((4 - length kept mod 4) mod 4) CHR ''=''
      in decodeGroups padded)"

section \<open>Key derivation (decrypt.go, keygen2 and reverseString)\<close>

text \<open>\<open>reverseString\<close>: the two-index swap loop over the runes of \<open>s\<close>.\<close>

function reverseLoop :: "nat list \<Rightarrow> nat \<Rightarrow> nat \<Rightarrow> nat list" where
  "reverseLoop rs i j =
     (if i < j then reverseLoop (rs[i := rs ! j, j := rs ! i]) (i + 1) (j - 1) else rs)"
  by pat_completeness auto
termination
  by (relation "measure (\<lambda>(rs, i, j). j - i)") auto

declare reverseLoop.simps [simp del]

definition reverseString :: "string \<Rightarrow> string" where
  "reverseString s = stringOfRunes (reverseLoop (runes s) 0 (length (runes s) - 1))"

text \<open>Go's \<open>%\<close> on signed integers truncates towards zero.\<close>

definition goRem :: "int \<Rightarrow> int \<Rightarrow> int" where
  "goRem a b = sgn a * (\<bar>a\<bar> mod \<bar>b\<bar>)"

fun keygenHash :: "string \<Rightarrow> int \<Rightarrow> int" where
  "keygenHash [] hashVal = hashVal"
| "keygenHash (c # cs) hashVal =
     keygenHash cs (int (of_char c) + hashVal * 31 + push_bit 7 hashVal - hashVal)"

definition interleave :: "string \<Rightarrow> string \<Rightarrow> string" where
  "interleave tempKeyStr leafStr =
     fold (\<lambda>i returnKey.
             returnKey
             @ (if i < length tempKeyStr then [tempKeyStr ! i] else [])
             @ (if i < length leafStr then [leafStr ! i] else []))
          [0..<max (length tempKeyStr) (length leafStr)] []"

definition keygenL :: "string \<Rightarrow> int" where
  "keygenL tempKey =
     (let hashVal = keygenHash tempKey 0;
          hashVal = (if hashVal < 0 then \<bar>hashVal\<bar> else hashVal);
          lHashInt = hashVal mod 0x7fffffffffffffff
      in if lHashInt < 0 then - lHashInt else lHashInt)"

definition keygen2 :: "string \<Rightarrow> string \<Rightarrow> panic + string" where
  "keygen2 megacloudKey clientKey =
     (let tempKey = megacloudKey @ clientKey;
          lHashInt = keygenL tempKey;
          xored = map (\<lambda>c. char_of ((of_char c :: nat) XOR 247)) tempKey
      in if length xored = 0 then Inl DivideByZero
         else
           let pivot = nat (goRem lHashInt (int (length xored))) + 5;
               pivot = (if pivot \<ge> length xored then pivot mod length xored else pivot);
               tempKeyStr = drop pivot xored @ take pivot xored;
               leafStr = reverseString clientKey;
               returnKey = interleave tempKeyStr leafStr;
               limit = 96 + nat (goRem lHashInt 33);
               limit = (if limit > length returnKey then length returnKey else limit);
               returnKey = take limit returnKey
           in Inr (map (\<lambda>c. char_of ((of_char c :: nat) mod 95 + 32)) returnKey))"



section \<open>Layered cipher (decrypt.go)\<close>

subsection \<open>Decimal conversions\<close>

text \<open>\<open>strconv.Itoa\<close>.\<close>

function natDigits :: "nat \<Rightarrow> string" where
  "natDigits n =
     (if n < 10 then [char_of (48 + n)] else natDigits (n div 10) @ [char_of (48 + n mod 10)])"
  by pat_completeness auto
termination
  by (relation "measure id") auto

declare natDigits.simps [simp del]

definition Itoa :: "int \<Rightarrow> string" where
  "Itoa i = (if i < 0 then CHR ''-'' # natDigits (nat (- i)) else natDigits (nat i))"

text \<open>
  \<open>strconv.Atoi\<close>: an optional sign followed by at least one decimal digit and nothing
  else; \<open>None\<close> is the error result (a syntax error, or a value outside \<open>int\<close>).
  In the digit loop \<open>ch -= '0'\<close> is byte arithmetic: it wraps around below \<open>'0'\<close>.
\<close>

fun atoiDigits :: "string \<Rightarrow> nat \<Rightarrow> nat option" where
  "atoiDigits [] n = Some n"
| "atoiDigits (ch # s) n =
     (let d = ((of_char ch :: nat) + 256 - 48) mod 256
      in if d > 9 then None else atoiDigits s (n * 10 + d))"

definition Atoi :: "string \<Rightarrow> int option" where
  "Atoi s =
     (case s of
        [] \<Rightarrow> None
      | c # t \<Rightarrow>
          let neg = (c = CHR ''-'');
              ds = (if c = CHR ''-'' \<or> c = CHR ''+'' then t else s)
          in if length ds < 1 then None
             else (case atoiDigits ds 0 of
                     None \<Rightarrow> None
                   | Some n \<Rightarrow>
                       let v = (if neg then - int n else int n)
                       in if - (2 ^ 63) \<le> v \<and> v \<le> 2 ^ 63 - 1 then Some v else None))"

subsection \<open>Seeded generator\<close>

text \<open>
  The closures \<open>seedRand\<close> (in \<open>reverseLayer\<close>) and \<open>pseudoRand\<close> (in \<open>seedShuffle2\<close>)
  advance a \<open>uint64\<close> state and return it reduced modulo their argument; the state is
  passed explicitly, as a \<open>nat\<close> with the wrap-around of \<open>uint64\<close> arithmetic written
  out.  Their argument is 95, or \<open>i + 1\<close> with \<open>i > 0\<close>, at every call.
\<close>

definition seedRand :: "nat \<Rightarrow> nat \<Rightarrow> nat \<times> nat" where
  "seedRand seed arg =
     (let seed = ((seed * 1103515245 + 12345) mod 2 ^ 64) AND 0x7fffffff
      in (seed, seed mod arg))"

definition pseudoRand :: "nat \<Rightarrow> nat \<Rightarrow> nat \<times> nat" where
  "pseudoRand shuffleNum arg =
     (let shuffleNum = ((shuffleNum * 1103515245 + 12345) mod 2 ^ 64) AND 0x7fffffff
      in (shuffleNum, shuffleNum mod arg))"

subsection \<open>seedShuffle2\<close>

fun shuffleHash :: "string \<Rightarrow> nat \<Rightarrow> nat" where
  "shuffleHash [] hashVal = hashVal"
| "shuffleHash (c # cs) hashVal =
     shuffleHash cs (((hashVal * 31 + of_char c) mod 2 ^ 64) AND 0xffffffff)"

text \<open>
  One iteration of the Fisher-Yates loop: draw \<open>j\<close>, swap \<open>result[i]\<close> and \<open>result[j]\<close>.
  The state is the slice and the generator state.
\<close>

definition shuffleStep :: "nat \<Rightarrow> string list \<times> nat \<Rightarrow> string list \<times> nat" where
  "shuffleStep i st =
     (let result = fst st;
          (shuffleNum, j) = pseudoRand (snd st) (i + 1)
      in (result[i := result ! j, j := result ! i], shuffleNum))"

text \<open>The loop \<open>for i := len(result) - 1; i > 0; i--\<close>.\<close>

function shuffleLoop :: "nat \<Rightarrow> string list \<times> nat \<Rightarrow> string list \<times> nat" where
  "shuffleLoop i st = (if i > 0 then shuffleLoop (i - 1) (shuffleStep i st) else st)"
  by pat_completeness auto
termination
  by (relation "measure (\<lambda>(i, st). i)") auto

declare shuffleLoop.simps [simp del]

definition seedShuffle2 :: "string list \<Rightarrow> string \<Rightarrow> string list" where
  "seedShuffle2 charArray iKey =
     fst (shuffleLoop (length charArray - 1) (charArray, shuffleHash iKey 0))"

subsection \<open>columnarCipher2\<close>

datatype keyIdx = KeyIdx (char: char) (idx: nat)

text \<open>The inner \<open>for j > 0 && sortedMap[j].char < sortedMap[j-1].char\<close> loop of the sort.\<close>

function insertInner :: "keyIdx list \<Rightarrow> nat \<Rightarrow> keyIdx list" where
  "insertInner sortedMap j =
     (if j > 0 \<and> (of_char (char (sortedMap ! j)) :: nat) < of_char (char (sortedMap ! (j - 1)))
      then insertInner (sortedMap[j := sortedMap ! (j - 1), j - 1 := sortedMap ! j]) (j - 1)
      else sortedMap)"
  by pat_completeness auto
termination
  by (relation "measure (\<lambda>(sortedMap, j). j)") auto

declare insertInner.simps [simp del]

definition insertionSort :: "keyIdx list \<Rightarrow> keyIdx list" where
  "insertionSort keyMap = fold (\<lambda>i sortedMap. insertInner sortedMap i) [1..<length keyMap] keyMap"

text \<open>
  The fill loops: for each key entry in sorted order and each row, the next character of
  \<open>src\<close> (if any is left) is stored in \<open>cipher[row][ki.idx]\<close>.
\<close>

definition fillCell :: "string \<Rightarrow> nat \<Rightarrow> nat \<Rightarrow> string list \<times> nat \<Rightarrow> string list \<times> nat" where
  "fillCell src col row st =
     (let cipher = fst st; srcIndex = snd st
      in if srcIndex < length src
         then (cipher[row := (cipher ! row)[col := src ! srcIndex]], srcIndex + 1)
         else (cipher, srcIndex))"

definition fillColumn :: "string \<Rightarrow> nat \<Rightarrow> keyIdx \<Rightarrow> string list \<times> nat \<Rightarrow> string list \<times> nat" where
  "fillColumn src rowCount ki st = fold (fillCell src (idx ki)) [0..<rowCount] st"

definition columnarCipher2 :: "string \<Rightarrow> string \<Rightarrow> string" where
  "columnarCipher2 src ikey =
     (let columnCount = length ikey
      in if columnCount = 0 then src
         else
           let rowCount = (length src + columnCount - 1) div columnCount;
               cipher = replicate rowCount (replicate columnCount CHR '' '');
               keyMap = map (\<lambda>i. KeyIdx (ikey ! i) i) [0..<columnCount];
               sortedMap = insertionSort keyMap;
               cipher = fst (fold (fillColumn src rowCount) sortedMap (cipher, 0))
           in concat (map (\<lambda>row. map (\<lambda>col. cipher ! row ! col) [0..<columnCount])
                          [0..<rowCount]))"

subsection \<open>reverseLayer\<close>

text \<open>The seed hash of \<open>reverseLayer\<close>, computed with \<open>big.Int\<close> and masked to 32 bits.\<close>

fun layerHash :: "string \<Rightarrow> nat \<Rightarrow> nat" where
  "layerHash [] hashVal = hashVal"
| "layerHash (c # cs) hashVal = layerHash cs ((hashVal * 31 + of_char c) AND 0xffffffff)"

text \<open>
  One iteration of the shift loop, for the rune \<open>ch\<close>: the state is the generator state
  and the runes of \<open>shifted\<close> written so far.  \<open>charArray[newIdx]\<close> panics when \<open>newIdx\<close>
  is out of range, and \<open>[]rune(x)[0]\<close> panics when \<open>x\<close> is the empty string.
\<close>

definition shiftStep ::
  "string list \<Rightarrow> (string \<rightharpoonup> nat) \<Rightarrow> nat \<Rightarrow> panic + nat \<times> nat list
     \<Rightarrow> panic + nat \<times> nat list" where
  "shiftStep charArray charIndex ch st =
     (case st of
        Inl e \<Rightarrow> Inl e
      | Inr (seed, shifted) \<Rightarrow>
          (case charIndex (encodeRune ch) of
             None \<Rightarrow> Inr (seed, shifted @ [ch])
           | Some cIdx \<Rightarrow>
               (let (seed', randNum) = seedRand seed 95;
                    newIdx = nat (goRem (int cIdx - int randNum + 95) 95)
                in if newIdx < length charArray then
                     (case runes (charArray ! newIdx) of
                        [] \<Rightarrow> Inl IndexOutOfRange
                      | r # _ \<Rightarrow> Inr (seed', shifted @ [r]))
                   else Inl IndexOutOfRange)))"

definition shiftLoop ::
  "string list \<Rightarrow> (string \<rightharpoonup> nat) \<Rightarrow> nat list \<Rightarrow> nat \<Rightarrow> panic + nat list" where
  "shiftLoop charArray charIndex rs seed =
     map_sum id snd (fold (shiftStep charArray charIndex) rs (Inr (seed, [])))"

text \<open>
  One iteration of the substitution loop \<open>for i, ch := range decSrc\<close>: \<open>i\<close> is the byte
  offset of the rune, and \<open>result\<close> has one (initially zero) rune per byte of \<open>decSrc\<close>.
\<close>

definition substStep :: "(string \<rightharpoonup> string) \<Rightarrow> nat \<times> nat \<Rightarrow> panic + nat list \<Rightarrow> panic + nat list" where
  "substStep charMap ich st =
     (case st of
        Inl e \<Rightarrow> Inl e
      | Inr result \<Rightarrow>
          (case charMap (encodeRune (snd ich)) of
             Some replacement \<Rightarrow>
               (case runes replacement of
                  [] \<Rightarrow> Inl IndexOutOfRange
                | r # _ \<Rightarrow> Inr (result[fst ich := r]))
           | None \<Rightarrow> Inr (result[fst ich := snd ich])))"

definition substLoop :: "(string \<rightharpoonup> string) \<Rightarrow> (nat \<times> nat) list \<Rightarrow> nat list \<Rightarrow> panic + nat list" where
  "substLoop charMap ichs result = fold (substStep charMap) ichs (Inr result)"

definition reverseLayer :: "string \<Rightarrow> string \<Rightarrow> int \<Rightarrow> string list \<Rightarrow> panic + string" where
  "reverseLayer decSrc genKey iteration charArray =
     (let layerKey = genKey @ Itoa iteration;
          seed = layerHash layerKey 0 mod 2 ^ 64;
          charIndex = mapFromList (zip charArray [0..<length charArray])
      in case shiftLoop charArray charIndex (runes decSrc) seed of
           Inl e \<Rightarrow> Inl e
         | Inr shifted \<Rightarrow>
             let decSrc = stringOfRunes shifted;
                 decSrc = columnarCipher2 decSrc layerKey;
                 subValues = seedShuffle2 charArray layerKey;
                 charMap = mapFromList (zip subValues charArray)
             in (case substLoop charMap (rangeString 0 decSrc) (replicate (length decSrc) 0) of
                   Inl e \<Rightarrow> Inl e
                 | Inr result \<Rightarrow> Inr (stringOfRunes result)))"

subsection \<open>decryptSrc2\<close>

text \<open>\<open>charArray[i] = string(rune(32 + i))\<close> for \<open>i\<close> from 0 to 94.\<close>

definition printable95 :: "string list" where
  "printable95 = map (\<lambda>i. encodeRune (32 + i)) [0..<95]"

text \<open>The loop \<open>for i := layers; i > 0; i--\<close>; a panic in one layer ends the run.\<close>

definition layerStep :: "string \<Rightarrow> string list \<Rightarrow> nat \<Rightarrow> panic + string \<Rightarrow> panic + string" where
  "layerStep genKey charArray i st =
     (case st of
        Inl e \<Rightarrow> Inl e
      | Inr decSrc \<Rightarrow> reverseLayer decSrc genKey (int i) charArray)"

function layersLoop :: "string \<Rightarrow> string list \<Rightarrow> nat \<Rightarrow> panic + string \<Rightarrow> panic + string" where
  "layersLoop genKey charArray i st =
     (if i > 0 then layersLoop genKey charArray (i - 1) (layerStep genKey charArray i st) else st)"
  by pat_completeness auto
termination
  by (relation "measure (\<lambda>(genKey, charArray, i, st). i)") auto

declare layersLoop.simps [simp del]

text \<open>
  The length framing at the end of \<open>decryptSrc2\<close>.  The slice expression
  \<open>decSrc[4 : 4+dataLen]\<close> panics when \<open>4 + dataLen < 4\<close>.
\<close>

definition extractData :: "string \<Rightarrow> panic + string" where
  "extractData decSrc =
     (if length decSrc < 4 then Inr []
      else (case Atoi (take 4 decSrc) of
              None \<Rightarrow> Inr []
            | Some dataLen \<Rightarrow>
                if 4 + dataLen > int (length decSrc) then Inr []
                else if 4 + dataLen < 4 then Inl SliceBounds
                else Inr (take (nat dataLen) (drop 4 decSrc))))"

definition decryptSrc2 :: "string \<Rightarrow> string \<Rightarrow> string \<Rightarrow> panic + string" where
  "decryptSrc2 src clientKey megacloudKey =
     (case keygen2 megacloudKey clientKey of
        Inl e \<Rightarrow> Inl e
      | Inr genKey \<Rightarrow>
          (case layersLoop genKey printable95 3 (Inr (atob src)) of
             Inl e \<Rightarrow> Inl e
           | Inr decSrc \<Rightarrow> extractData decSrc))"

section \<open>Auxiliary notions for the transposition proofs\<close>







section \<open>Source selection (megacloud.go, Extract, step 6)\<close>

record source =
  File :: string
  Type :: string

text \<open>\<open>strings.Contains\<close>: \<open>substr\<close> occurs in \<open>s\<close> at some offset.\<close>

fun Contains :: "string \<Rightarrow> string \<Rightarrow> bool" where
  "Contains [] substr = (substr = [])"
| "Contains (c # s) substr = (prefix substr (c # s) \<or> Contains s substr)"

text \<open>The \<open>for _, s := range sources\<close> loop with its \<open>break\<close>.\<close>

fun selectLoop :: "source list \<Rightarrow> string \<Rightarrow> string \<Rightarrow> string" where
  "selectLoop [] preferredQuality streamURL = streamURL"
| "selectLoop (s # ss) preferredQuality streamURL =
     (if Contains (File s) preferredQuality then File s
      else selectLoop ss preferredQuality streamURL)"

definition selectStreamURL :: "source list \<Rightarrow> string \<Rightarrow> extractError + string" where
  "selectStreamURL sources preferredQuality =
     (if length sources = 0 then Inl NoSourcesFound
      else Inr (selectLoop sources preferredQuality (File (sources ! 0))))"

section \<open>UTF-8: properties\<close>

lemma decodeRune_le: "snd (decodeRune s) \<le> length s"
  by (cases s) (auto simp: Let_def split: list.splits)

lemma not_cont_ascii: "(of_char c :: nat) < 0x80 \<Longrightarrow> 0x80 \<le> lo \<Longrightarrow> \<not> cont lo hi c"
  by (simp add: cont_def)

lemma decodeRune_append_ascii:
  assumes "(of_char c :: nat) < 0x80"
  shows "decodeRune ((x # t) @ c # u) = decodeRune (x # t)"
proof -
  have n: "\<And>lo hi. 0x80 \<le> lo \<Longrightarrow> \<not> cont lo hi c"
    using assms by (simp add: cont_def)
  show ?thesis
  proof (cases t)
    case Nil
    then show ?thesis by (simp add: Let_def n split: list.splits)
  next
    case (Cons y t1)
    show ?thesis
    proof (cases t1)
      case Nil
      with Cons show ?thesis by (simp add: Let_def n split: list.splits)
    next
      case (Cons z t2)
      note c2 = this
      show ?thesis
      proof (cases t2)
        case Nil
        with c2 \<open>t = y # t1\<close> show ?thesis by (simp add: Let_def n split: list.splits)
      next
        case (Cons w t3)
        with c2 \<open>t = y # t1\<close> show ?thesis by (simp add: Let_def)
      qed
    qed
  qed
qed

lemma rangeString_index: "map snd (rangeString i t) = map snd (rangeString j t)"
  by (induction i t arbitrary: j rule: rangeString.induct) auto

lemma rangeString_append_ascii:
  assumes "(of_char c :: nat) < 0x80"
  shows "map snd (rangeString i (s @ c # u)) = map snd (rangeString i s) @ map snd (rangeString j (c # u))"
proof (induction i s arbitrary: j rule: rangeString.induct)
  case (1 i)
  show ?case using rangeString_index [of i "c # u" j] by simp
next
  case (2 i x t)
  let ?n = "snd (decodeRune (x # t))"
  have d: "decodeRune ((x # t) @ c # u) = decodeRune (x # t)"
    using assms by (rule decodeRune_append_ascii)
  have le: "?n - 1 \<le> length t"
    using decodeRune_le [of "x # t"] by simp
  have "rangeString i ((x # t) @ c # u) =
          (i, fst (decodeRune (x # t))) # rangeString (i + ?n) (drop (?n - 1) t @ c # u)"
    using d le by simp
  then show ?case using "2.IH" by simp
qed

lemma runes_append_ascii:
  "(of_char c :: nat) < 0x80 \<Longrightarrow> runes (s @ c # u) = runes s @ runes (c # u)"
  unfolding runes_def by (rule rangeString_append_ascii)

lemma runes_Nil: "runes [] = []"
  by (simp add: runes_def)

lemma runes_ascii_Cons:
  "(of_char c :: nat) < 0x80 \<Longrightarrow> runes (c # u) = of_char c # runes u"
  using rangeString_index [of 1 u 0] by (simp add: runes_def Let_def)

lemma runes_ascii: "\<forall>c \<in> set s. (of_char c :: nat) < 0x80 \<Longrightarrow> runes s = map of_char s"
  by (induction s) (simp_all add: runes_Nil runes_ascii_Cons)

lemma encodeRune_ascii: "(of_char c :: nat) < 0x80 \<Longrightarrow> encodeRune (of_char c) = [c]"
  by (simp add: encodeRune_def)

lemma stringOfRunes_ascii:
  "\<forall>c \<in> set s. (of_char c :: nat) < 0x80 \<Longrightarrow> stringOfRunes (map of_char s) = s"
  by (induction s) (simp_all add: stringOfRunes_def encodeRune_ascii)

section \<open>Base64 decoding: properties\<close>

lemma atobEncoded_pad:
  "atobEncoded (s @ replicate n CHR ''='') = atobEncoded s"
proof (induction n)
  case 0
  then show ?case by simp
next
  case (Suc n)
  have "runes (s @ CHR ''='' # replicate n CHR ''='') = runes s @ runes (CHR ''='' # replicate n CHR ''='')"
    by (rule runes_append_ascii) simp
  moreover have "runes (s @ replicate n CHR ''='') = runes s @ runes (replicate n CHR ''='')"
    by (cases n) (simp_all add: runes_Nil runes_append_ascii)
  moreover have "runes (CHR ''='' # replicate n CHR ''='') = 0x3D # runes (replicate n CHR ''='')"
    by (simp add: runes_ascii_Cons)
  ultimately show ?case using Suc by (simp add: atobEncoded_def stripped_def)
qed

lemma atob_pad: "atob (s @ replicate n CHR ''='') = atob s"
  by (simp add: atob_def atobEncoded_pad)


lemma indexOf_less: "x \<in> set xs \<Longrightarrow> indexOf xs x < length xs"
  unfolding indexOf_def by (induction xs) auto

lemma nth_indexOf: "x \<in> set xs \<Longrightarrow> xs ! indexOf xs x = x"
  unfolding indexOf_def by (induction xs) auto

lemma mapFromList_indices:
  assumes "distinct xs"
  shows "mapFromList (zip xs [0..<length xs]) x =
           (if x \<in> set xs then Some (indexOf xs x) else None)"
proof (cases "x \<in> set xs")
  case True
  let ?i = "indexOf xs x"
  have "(x, ?i) \<in> set (rev (zip xs [0..<length xs]))"
    using True indexOf_less [OF True] nth_indexOf [OF True]
    by (auto simp: in_set_zip intro!: exI [of _ ?i])
  moreover have "distinct (map fst (rev (zip xs [0..<length xs])))"
    using assms by (simp add: rev_map [symmetric])
  ultimately show ?thesis
    using True by (simp add: mapFromList_def)
next
  case False
  have "map_of (rev (zip xs [0..<length xs])) x = None"
    using False by (auto simp: map_of_eq_None_iff dest: set_zip_leftD)
  with False show ?thesis by (simp add: mapFromList_def)
qed

lemma distinct_base64Chars: "distinct base64Chars"
  by (simp add: base64Chars_def)

lemma atobLookup_eq:
  "atobLookup c = (if c \<in> set base64Chars then Some (base64Value c) else None)"
  by (simp add: atobLookup_def mapFromList_indices [OF distinct_base64Chars] base64Value_def)

lemma eq_not_base64: "CHR ''='' \<notin> set base64Chars"
  by (simp add: base64Chars_def)

lemma atobInner_step:
  assumes "j < 4" "j < length g"
  shows "atobInner g j (vals, cnt) =
           atobInner g (Suc j) (vals[j := base64Value (g ! j)],
                                 if g ! j \<in> set base64Chars then Suc j else cnt)"
proof (cases "g ! j = CHR ''=''")
  case True
  then have "base64Value (g ! j) = 0"
    using eq_not_base64 by (simp add: base64Value_def)
  with True assms eq_not_base64 show ?thesis
    by (subst atobInner.simps) simp
next
  case False
  with assms show ?thesis
    by (subst atobInner.simps) (simp add: atobLookup_eq base64Value_def)
qed

lemma atobInner_stop: "\<not> (j < 4 \<and> j < length g) \<Longrightarrow> atobInner g j (vals, cnt) = (vals, cnt)"
  by (subst atobInner.simps) auto

lemma atobInner_quad:
  "atobInner [a, b, c, d] 0 ([0, 0, 0, 0], 0) =
     ([base64Value a, base64Value b, base64Value c, base64Value d],
      if d \<in> set base64Chars then 4
      else if c \<in> set base64Chars then 3
      else if b \<in> set base64Chars then 2
      else if a \<in> set base64Chars then 1 else 0)"
  by (simp add: atobInner_step atobInner_stop numeral_3_eq_3 numeral_2_eq_2)

lemma atobPad_4: "length e mod 4 = 0 \<Longrightarrow> atobPad e = e"
  by (subst atobPad.simps) simp

lemma atobGroups_Nil: "atobGroups [] = []"
  by (subst atobGroups.simps) simp

lemma atobGroups_quad:
  "atobGroups [a, b, c, d] = atobBytes (atobInner [a, b, c, d] 0 ([0, 0, 0, 0], 0))"
  by (subst atobGroups.simps) (simp add: atobGroups_Nil)

lemma atob_quad:
  assumes "\<forall>x \<in> {a, b, c, d}. (of_char x :: nat) < 0x80 \<and> \<not> stripped (of_char x)"
    and "d \<in> set base64Chars"
  shows "atob [a, b, c, d] =
           [char_of (push_bit 2 (base64Value a) OR drop_bit 4 (base64Value b)),
            char_of (push_bit 4 (base64Value b AND 0xf) OR drop_bit 2 (base64Value c)),
            char_of (push_bit 6 (base64Value c AND 0x3) OR base64Value d)]"
proof -
  have "runes [a, b, c, d] = map of_char [a, b, c, d]"
    using assms(1) by (intro runes_ascii) simp
  then have "atobEncoded [a, b, c, d] = [a, b, c, d]"
    using assms(1) by (simp add: atobEncoded_def)
  then show ?thesis
    using assms(2)
    by (simp add: atob_def atobPad_4 atobGroups_quad atobInner_quad atobBytes_def)
qed
lemma atobPad_eq: "atobPad e = e @ replicate ((4 - length e mod 4) mod 4) CHR ''=''"
proof (induction e rule: atobPad.induct)
  case (1 encoded)
  show ?case
  proof (cases "length encoded mod 4 \<noteq> 0")
    case False
    then show ?thesis by (subst atobPad.simps) simp
  next
    case True
    have a: "(4 - length encoded mod 4) mod 4 = Suc ((4 - Suc (length encoded) mod 4) mod 4)"
    proof -
      have "length encoded mod 4 < 4" by simp
      with True show ?thesis by (simp add: mod_Suc) arith
    qed
    have "atobPad encoded = atobPad (encoded @ ''='')"
      using True by (subst atobPad.simps) simp
    also have "\<dots> = (encoded @ ''='') @ replicate ((4 - length (encoded @ ''='') mod 4) mod 4) CHR ''=''"
      using "1.IH" [OF True] .
    also have "\<dots> = encoded @ replicate ((4 - length encoded mod 4) mod 4) CHR ''=''"
      by (simp add: a)
    finally show ?thesis .
  qed
qed

lemma atobInner_four:
  "atobInner (a # b # c # d # rest) 0 ([0, 0, 0, 0], 0) =
     ([base64Value a, base64Value b, base64Value c, base64Value d],
      if d \<in> set base64Chars then 4
      else if c \<in> set base64Chars then 3
      else if b \<in> set base64Chars then 2
      else if a \<in> set base64Chars then 1 else 0)"
  by (simp add: atobInner_step atobInner_stop numeral_3_eq_3 numeral_2_eq_2)

lemma symbolCount_four:
  "symbolCount [a, b, c, d] =
     (if d \<in> set base64Chars then 4
      else if c \<in> set base64Chars then 3
      else if b \<in> set base64Chars then 2
      else if a \<in> set base64Chars then 1 else 0)"
  by (simp add: symbolCount_def)

lemma atobBytes_groupBytes:
  "atobBytes (atobInner (a # b # c # d # rest) 0 ([0, 0, 0, 0], 0)) = groupBytes a b c d"
  by (simp add: atobInner_four atobBytes_def groupBytes_def symbolCount_four)

lemma atobGroups_decodeGroups: "length e mod 4 = 0 \<Longrightarrow> atobGroups e = decodeGroups e"
proof (induction e rule: decodeGroups.induct)
  case (1 a b c d rest)
  have "length rest mod 4 = 0" using "1.prems" by simp
  then have "atobGroups rest = decodeGroups rest" by (rule "1.IH")
  moreover have "atobGroups (a # b # c # d # rest)
        = atobBytes (atobInner (a # b # c # d # rest) 0 ([0, 0, 0, 0], 0)) @ atobGroups rest"
    by (subst atobGroups.simps) simp
  ultimately show ?case by (simp add: atobBytes_groupBytes)
qed (simp_all add: atobGroups_Nil)

lemma atob_atobSpec: "atob s = atobSpec s"
proof -
  have k: "atobEncoded s = map char_of (filter (\<lambda>r. r \<notin> {0x3D, 0x0A, 0x0D, 0x20}) (runes s))"
    by (simp add: atobEncoded_def stripped_def)
  have m: "length (atobPad (atobEncoded s)) mod 4 = 0"
    unfolding atobPad_eq by (simp add: mod_simps) arith
  show ?thesis
    unfolding atob_def atobSpec_def Let_def atobGroups_decodeGroups [OF m]
    unfolding atobPad_eq k ..
qed

text \<open>
  C6 (as amended).  \<open>atob\<close> never rejects an input, and on every input it computes the
  closed form \<open>atobSpec\<close>: the runes \<open>=\<close>, line feed, carriage return and space are
  deleted (not given the value 0), every other rune is truncated to its low byte, the
  result is padded with \<open>=\<close> to a multiple of four, and each group of four is decoded
  with the value 0 for a symbol outside the alphabet, yielding one byte less than the
  position of its last alphabet symbol.  So trailing \<open>=\<close> may be present or missing,
  \<open>atob("")\<close> is empty and \<open>atob("SGVsbG8=")\<close> is \<open>Hello\<close>.
\<close>

theorem atob_decodes_every_input:
  "(\<forall>s. atob s = atobSpec s)
   \<and> (\<forall>s n. atob (s @ replicate n CHR ''='') = atob s)
   \<and> atob [] = []
   \<and> atob ''SGVsbG8='' = ''Hello''
   \<and> atob ''SGVsbG8'' = ''Hello''"
proof -
  have 1: "\<forall>s. atob s = atobSpec s" by (simp add: atob_atobSpec)
  have 2: "\<forall>s n. atob (s @ replicate n CHR ''='') = atob s" by (simp add: atob_pad)
  have 3: "atob [] = []" by code_simp
  have 4: "atob ''SGVsbG8='' = ''Hello''" by code_simp
  have 5: "atob ''SGVsbG8'' = ''Hello''" by code_simp
  from 1 2 3 4 5 show ?thesis by blast
qed

text \<open>
  C6 as stated fails.  The two bytes \<open>C5 BA\<close> are outside the alphabet, yet they are
  decoded as the symbol \<open>z\<close> of value 51 (the low byte of the rune \<open>U+017A\<close>), not as the
  value 0; and a space is deleted, so that the symbols after it move up, instead of
  taking a position with the value 0.
\<close>

theorem atob_value_zero_counterexample:
  "CHR 0xC5 \<notin> set base64Chars \<and> CHR 0xBA \<notin> set base64Chars
   \<and> atob [CHR ''Q'', CHR ''U'', CHR 0xC5, CHR 0xBA] = ''AL''
   \<and> atob ''QUz'' = ''AL''
   \<and> atob ''QUAA'' = [CHR ''A'', CHR ''@'', CHR 0x00]
   \<and> CHR '' '' \<notin> set base64Chars
   \<and> atob ''QU JD'' = ''ABC''
   \<and> atob ''QUJD'' = ''ABC''
   \<and> atob ''QUAJD'' = [CHR ''A'', CHR ''@'', CHR 0x09]"
proof -
  have 1: "CHR 0xC5 \<notin> set base64Chars" "CHR 0xBA \<notin> set base64Chars"
    "CHR '' '' \<notin> set base64Chars"
    by (simp_all add: base64Chars_def)
  have 2: "atob [CHR ''Q'', CHR ''U'', CHR 0xC5, CHR 0xBA] = ''AL''" by code_simp
  have 3: "atob ''QUz'' = ''AL''" by code_simp
  have 4: "atob ''QUAA'' = [CHR ''A'', CHR ''@'', CHR 0x00]" by code_simp
  have 5: "atob ''QU JD'' = ''ABC''" by code_simp
  have 6: "atob ''QUJD'' = ''ABC''" by code_simp
  have 7: "atob ''QUAJD'' = [CHR ''A'', CHR ''@'', CHR 0x09]" by code_simp
  from 1 2 3 4 5 6 7 show ?thesis by blast
qed

section \<open>Key derivation: properties\<close>

lemma reverseLoop_nth:
  "(i < j \<longrightarrow> j < length rs) \<Longrightarrow> k < length rs \<Longrightarrow>
   reverseLoop rs i j ! k = (if i \<le> k \<and> k \<le> j \<and> i < j then rs ! (i + j - k) else rs ! k)"
proof (induction rs i j arbitrary: k rule: reverseLoop.induct)
  case (1 rs i j)
  show ?case
  proof (cases "i < j")
    case False
    then show ?thesis by (subst reverseLoop.simps) simp
  next
    case True
    let ?rs = "rs[i := rs ! j, j := rs ! i]"
    have jl: "j < length rs" using True "1.prems" by simp
    have kl: "k < length rs" using "1.prems" by simp
    have ih: "reverseLoop ?rs (i + 1) (j - 1) ! k
                = (if i + 1 \<le> k \<and> k \<le> j - 1 \<and> i + 1 < j - 1
                   then ?rs ! (i + 1 + (j - 1) - k) else ?rs ! k)"
    proof (rule "1.IH" [OF True])
      show "i + 1 < j - 1 \<longrightarrow> j - 1 < length ?rs" using jl by auto
      show "k < length ?rs" using kl by simp
    qed
    have unf: "reverseLoop rs i j ! k = reverseLoop ?rs (i + 1) (j - 1) ! k"
      using True by (subst reverseLoop.simps) simp
    consider "k < i \<or> j < k" | "k = i" | "k = j" | "i < k" "k < j"
      by linarith
    then have "(if i + 1 \<le> k \<and> k \<le> j - 1 \<and> i + 1 < j - 1
                then ?rs ! (i + 1 + (j - 1) - k) else ?rs ! k)
               = (if i \<le> k \<and> k \<le> j \<and> i < j then rs ! (i + j - k) else rs ! k)"
    proof cases
      case 1
      then show ?thesis using True jl kl by (auto simp: nth_list_update)
    next
      case 2
      then show ?thesis using True jl kl by (auto simp: nth_list_update)
    next
      case 3
      then show ?thesis using True jl kl by (auto simp: nth_list_update)
    next
      case 4
      have e: "i + 1 + (j - 1) - k = i + j - k" using True by simp
      have b: "i < i + j - k" "i + j - k < j" "i + j - k < length rs"
        using 4 jl by simp_all
      show ?thesis
      proof (cases "i + 1 < j - 1")
        case True
        then show ?thesis using 4 b e jl kl by (auto simp: nth_list_update)
      next
        case False
        then have "i + j - k = k" using 4 by simp
        then show ?thesis using 4 False jl kl by (auto simp: nth_list_update)
      qed
    qed
    with ih unf show ?thesis by simp
  qed
qed

lemma reverseLoop_length: "length (reverseLoop rs i j) = length rs"
  by (induction rs i j rule: reverseLoop.induct) (subst reverseLoop.simps, simp)

lemma reverseLoop_rev: "reverseLoop rs 0 (length rs - 1) = rev rs"
proof (rule nth_equalityI)
  show "length (reverseLoop rs 0 (length rs - 1)) = length (rev rs)"
    by (simp add: reverseLoop_length)
next
  fix k assume "k < length (reverseLoop rs 0 (length rs - 1))"
  then have k: "k < length rs" by (simp add: reverseLoop_length)
  then have "reverseLoop rs 0 (length rs - 1) ! k
             = (if 0 < length rs - 1 then rs ! (length rs - 1 - k) else rs ! k)"
    by (subst reverseLoop_nth) auto
  also have "\<dots> = rev rs ! k"
  proof (cases "0 < length rs - 1")
    case True
    then show ?thesis using k by (simp add: rev_nth Suc_diff_Suc)
  next
    case False
    then have "k = 0" "length rs = 1" using k by simp_all
    then show ?thesis using False by (simp add: rev_nth)
  qed
  finally show "reverseLoop rs 0 (length rs - 1) ! k = rev rs ! k" .
qed

lemma reverseString_rev: "reverseString s = stringOfRunes (rev (runes s))"
  by (simp only: reverseString_def reverseLoop_rev)

lemma reverseString_ascii:
  assumes "\<forall>c \<in> set s. (of_char c :: nat) < 0x80"
  shows "reverseString s = rev s"
proof -
  have "rev (runes s) = map of_char (rev s)"
    using assms by (simp add: runes_ascii rev_map)
  moreover have "\<forall>c \<in> set (rev s). (of_char c :: nat) < 0x80"
    using assms by simp
  ultimately show ?thesis
    by (simp add: reverseString_rev stringOfRunes_ascii del: set_rev)
qed


lemma interleave_fold_length:
  "length (fold (\<lambda>i returnKey.
             returnKey
             @ (if i < length a then [a ! i] else [])
             @ (if i < length b then [b ! i] else [])) [0..<n] acc)
   = length acc + min n (length a) + min n (length b)"
  by (induction n) auto

lemma interleave_length: "length (interleave a b) = length a + length b"
  unfolding interleave_def interleave_fold_length by simp

lemma keygenL_nonneg: "0 \<le> keygenL s"
  by (simp add: keygenL_def Let_def)

lemma normalized_range:
  "32 \<le> (of_char (char_of ((of_char c :: nat) mod 95 + 32)) :: nat)
   \<and> (of_char (char_of ((of_char c :: nat) mod 95 + 32)) :: nat) \<le> 126"
proof -
  have "(of_char c :: nat) mod 95 < 95" by simp
  then have "(of_char c :: nat) mod 95 + 32 < 256" by linarith
  then have "(of_char (char_of ((of_char c :: nat) mod 95 + 32)) :: nat) = of_char c mod 95 + 32"
    by simp
  moreover have "(of_char c :: nat) mod 95 \<le> 94"
    using \<open>(of_char c :: nat) mod 95 < 95\<close> by linarith
  ultimately show ?thesis by simp
qed

text \<open>
  C2 (as amended).  For a non-empty \<open>megacloudKey + clientKey\<close>, \<open>keygen2\<close> returns a key
  whose length is the smaller of \<open>96 + L mod 33\<close> and the length of the interleaved
  material, \<open>len(megacloudKey) + len(clientKey) + len(reverseString(clientKey))\<close>; so it is at
  most 128, and it is at least 96 only when that material has at least 96 bytes.  Every
  byte of the key lies in \<open>[32, 126]\<close>.  For an ASCII client key the reversed key has the
  length of the key.
\<close>

theorem keygen2_length_and_range:
  assumes "megacloudKey @ clientKey \<noteq> []"
  shows "(\<exists>k. keygen2 megacloudKey clientKey = Inr k
           \<and> length k = min (96 + nat (keygenL (megacloudKey @ clientKey) mod 33))
                            (length megacloudKey + length clientKey
                             + length (reverseString clientKey))
           \<and> length k \<le> 128
           \<and> (\<forall>c \<in> set k. 32 \<le> (of_char c :: nat) \<and> (of_char c :: nat) \<le> 126))
         \<and> ((\<forall>c \<in> set clientKey. (of_char c :: nat) < 0x80) \<longrightarrow>
              length (reverseString clientKey) = length clientKey)"
proof -
  define L where "L = keygenL (megacloudKey @ clientKey)"
  define xored where
    "xored = map (\<lambda>c. char_of ((of_char c :: nat) XOR 247)) (megacloudKey @ clientKey)"
  define pivot0 where "pivot0 = nat (goRem L (int (length xored))) + 5"
  define pivot where
    "pivot = (if pivot0 \<ge> length xored then pivot0 mod length xored else pivot0)"
  define returnKey0 where
    "returnKey0 = interleave (drop pivot xored @ take pivot xored) (reverseString clientKey)"
  define limit0 where "limit0 = 96 + nat (goRem L 33)"
  define limit where
    "limit = (if limit0 > length returnKey0 then length returnKey0 else limit0)"
  define k where
    "k = map (\<lambda>c. char_of ((of_char c :: nat) mod 95 + 32)) (take limit returnKey0)"
  have ne: "length xored \<noteq> 0" using assms by (simp add: xored_def)
  have eq: "keygen2 megacloudKey clientKey = Inr k"
    unfolding keygen2_def Let_def
    unfolding L_def [symmetric] xored_def [symmetric]
    unfolding pivot0_def [symmetric]
    unfolding pivot_def [symmetric]
    unfolding returnKey0_def [symmetric]
    unfolding limit0_def [symmetric]
    unfolding limit_def [symmetric]
    unfolding k_def [symmetric]
    using ne by (simp only: if_False)
  have L: "0 \<le> L" unfolding L_def by (rule keygenL_nonneg)
  have r33: "goRem L 33 = L mod 33"
    using L by (cases "L = 0") (simp_all add: goRem_def)
  have l0: "length returnKey0
              = length megacloudKey + length clientKey + length (reverseString clientKey)"
    by (simp add: returnKey0_def interleave_length xored_def)
  have "limit = min limit0 (length returnKey0)"
    by (simp add: limit_def)
  then have len: "length k = min (96 + nat (L mod 33))
                            (length megacloudKey + length clientKey
                             + length (reverseString clientKey))"
    by (simp add: k_def limit0_def r33 l0)
  have "nat (L mod 33) < 33" by simp
  then have "length k \<le> 128" using len by linarith
  moreover have "\<forall>c \<in> set k. 32 \<le> (of_char c :: nat) \<and> (of_char c :: nat) \<le> 126"
    unfolding k_def using normalized_range by auto
  moreover have "(\<forall>c \<in> set clientKey. (of_char c :: nat) < 0x80) \<longrightarrow>
              length (reverseString clientKey) = length clientKey"
    by (simp add: reverseString_ascii)
  ultimately show ?thesis using eq len unfolding L_def by blast
qed

theorem keygen2_length_and_range_witness:
  "\<exists>k. keygen2 ''megakey123'' ''clientkey456'' = Inr k \<and> length k = 34"
proof -
  have ne: "''megakey123'' @ ''clientkey456'' \<noteq> []" by simp
  have a: "\<forall>c \<in> set ''clientkey456''. (of_char c :: nat) < 0x80" by simp
  from keygen2_length_and_range [OF ne] a
  have r: "length (reverseString ''clientkey456'') = length ''clientkey456''"
    by blast
  from keygen2_length_and_range [OF ne] obtain k where
    k: "keygen2 ''megakey123'' ''clientkey456'' = Inr k"
    and l: "length k = min (96 + nat (keygenL (''megakey123'' @ ''clientkey456'') mod 33))
                        (length ''megakey123'' + length ''clientkey456''
                         + length (reverseString ''clientkey456''))"
    by blast
  have "length k = 34" unfolding l r by simp
  with k show ?thesis by blast
qed

text \<open>
  C2 as stated fails on the input of the repository's own test: the keys are non-empty
  and the derived key has 34 bytes, fewer than 96.
\<close>

theorem keygen2_short_counterexample:
  "''megakey123'' @ ''clientkey456'' \<noteq> []
   \<and> keygen2 ''megakey123'' ''clientkey456''
       = Inr [CHR ''W'', CHR ''V'', CHR '']'', CHR ''U'', CHR ''S'', CHR ''T'',
              CHR ''O'', CHR '':'', CHR ''('', CHR ''&'', CHR 0x27, CHR '','',
              CHR ''&'', CHR ''5'', CHR ''U'', CHR ''/'', CHR 0x5C, CHR ''&'',
              CHR ''_'', CHR ''*'', CHR ''S'', CHR ''-'', CHR ''Z'', CHR ''$'',
              CHR ''D'', CHR '']'', CHR ''S'', CHR ''O'', CHR ''%'', CHR ''$'',
              CHR ''#'', CHR ''['', CHR ''S'', CHR ''Q'']
   \<and> length [CHR ''W'', CHR ''V'', CHR '']'', CHR ''U'', CHR ''S'', CHR ''T'',
              CHR ''O'', CHR '':'', CHR ''('', CHR ''&'', CHR 0x27, CHR '','',
              CHR ''&'', CHR ''5'', CHR ''U'', CHR ''/'', CHR 0x5C, CHR ''&'',
              CHR ''_'', CHR ''*'', CHR ''S'', CHR ''-'', CHR ''Z'', CHR ''$'',
              CHR ''D'', CHR '']'', CHR ''S'', CHR ''O'', CHR ''%'', CHR ''$'',
              CHR ''#'', CHR ''['', CHR ''S'', CHR ''Q''] < 96"
  by code_simp

section \<open>Layered cipher: structure of decryptSrc2\<close>

lemma layersLoop_3:
  "layersLoop genKey charArray 3 (Inr d) =
     (case reverseLayer d genKey 3 charArray of
        Inl e \<Rightarrow> Inl e
      | Inr t3 \<Rightarrow>
          (case reverseLayer t3 genKey 2 charArray of
             Inl e \<Rightarrow> Inl e
           | Inr t2 \<Rightarrow> reverseLayer t2 genKey 1 charArray))"
proof -
  have s: "\<And>i st. 0 < i \<Longrightarrow> layersLoop genKey charArray i st
             = layersLoop genKey charArray (i - 1) (layerStep genKey charArray i st)"
    by (subst layersLoop.simps) simp
  have z: "\<And>st. layersLoop genKey charArray 0 st = st"
    by (subst layersLoop.simps) simp
  have s3: "\<And>st. layersLoop genKey charArray 3 st
             = layersLoop genKey charArray 2 (layerStep genKey charArray 3 st)"
    using s [of 3] by simp
  have s2: "\<And>st. layersLoop genKey charArray 2 st
             = layersLoop genKey charArray 1 (layerStep genKey charArray 2 st)"
    using s [of 2] by simp
  have s1: "\<And>st. layersLoop genKey charArray 1 st
             = layersLoop genKey charArray 0 (layerStep genKey charArray 1 st)"
    using s [of 1] by simp
  have "layersLoop genKey charArray 3 (Inr d)
        = layerStep genKey charArray 1
            (layerStep genKey charArray 2 (layerStep genKey charArray 3 (Inr d)))"
    by (simp only: s3 s2 s1 z)
  then show ?thesis
    by (simp add: layerStep_def split: sum.splits)
qed

text \<open>
  C4.  \<open>decryptSrc2\<close> derives the key once, decodes the payload, and applies \<open>reverseLayer\<close>
  with iteration 3, then 2, then 1, each with the layer key \<open>genKey\<close> followed by the
  decimal iteration; the result goes through the length framing.  Inside \<open>reverseLayer\<close>
  the steps run in the order shift, columnar transposition, substitution: the
  transposition takes the shifted text, and the substitution the transposed text.
\<close>

theorem decryptSrc2_layer_order:
  "decryptSrc2 src clientKey megacloudKey =
     (case keygen2 megacloudKey clientKey of
        Inl e \<Rightarrow> Inl e
      | Inr genKey \<Rightarrow>
          (case reverseLayer (atob src) genKey 3 printable95 of
             Inl e \<Rightarrow> Inl e
           | Inr t3 \<Rightarrow>
               (case reverseLayer t3 genKey 2 printable95 of
                  Inl e \<Rightarrow> Inl e
                | Inr t2 \<Rightarrow>
                    (case reverseLayer t2 genKey 1 printable95 of
                       Inl e \<Rightarrow> Inl e
                     | Inr t1 \<Rightarrow> extractData t1))))
   \<and> reverseLayer decSrc genKey i charArray =
       (case shiftLoop charArray (mapFromList (zip charArray [0..<length charArray]))
               (runes decSrc) (layerHash (genKey @ Itoa i) 0 mod 2 ^ 64) of
          Inl e \<Rightarrow> Inl e
        | Inr shifted \<Rightarrow>
            (case substLoop (mapFromList (zip (seedShuffle2 charArray (genKey @ Itoa i)) charArray))
                    (rangeString 0 (columnarCipher2 (stringOfRunes shifted) (genKey @ Itoa i)))
                    (replicate (length (columnarCipher2 (stringOfRunes shifted) (genKey @ Itoa i))) 0) of
               Inl e \<Rightarrow> Inl e
             | Inr result \<Rightarrow> Inr (stringOfRunes result)))
   \<and> Itoa 3 = ''3'' \<and> Itoa 2 = ''2'' \<and> Itoa 1 = ''1''"
proof -
  have 1: "decryptSrc2 src clientKey megacloudKey =
     (case keygen2 megacloudKey clientKey of
        Inl e \<Rightarrow> Inl e
      | Inr genKey \<Rightarrow>
          (case reverseLayer (atob src) genKey 3 printable95 of
             Inl e \<Rightarrow> Inl e
           | Inr t3 \<Rightarrow>
               (case reverseLayer t3 genKey 2 printable95 of
                  Inl e \<Rightarrow> Inl e
                | Inr t2 \<Rightarrow>
                    (case reverseLayer t2 genKey 1 printable95 of
                       Inl e \<Rightarrow> Inl e
                     | Inr t1 \<Rightarrow> extractData t1))))"
    by (simp add: decryptSrc2_def layersLoop_3 split: sum.splits)
  have 2: "reverseLayer decSrc genKey i charArray =
       (case shiftLoop charArray (mapFromList (zip charArray [0..<length charArray]))
               (runes decSrc) (layerHash (genKey @ Itoa i) 0 mod 2 ^ 64) of
          Inl e \<Rightarrow> Inl e
        | Inr shifted \<Rightarrow>
            (case substLoop (mapFromList (zip (seedShuffle2 charArray (genKey @ Itoa i)) charArray))
                    (rangeString 0 (columnarCipher2 (stringOfRunes shifted) (genKey @ Itoa i)))
                    (replicate (length (columnarCipher2 (stringOfRunes shifted) (genKey @ Itoa i))) 0) of
               Inl e \<Rightarrow> Inl e
             | Inr result \<Rightarrow> Inr (stringOfRunes result)))"
    by (simp add: reverseLayer_def Let_def split: sum.splits)
  have 3: "Itoa 3 = ''3''" "Itoa 2 = ''2''" "Itoa 1 = ''1''"
    by code_simp+
  from 1 2 3 show ?thesis by blast
qed


lemma decryptSrc2_empty_keys: "decryptSrc2 src [] [] = Inl DivideByZero"
  by (simp add: decryptSrc2_def keygen2_def)

lemma extractData_negative: "extractData ''-001abcd '' = Inl SliceBounds"
  by code_simp

text \<open>
  C1 (the code panics).  With both keys empty \<open>keygen2\<close> divides by \<open>len(tempKeyStr) = 0\<close>,
  for every payload; and a decrypted text whose first four characters parse as a
  negative number makes the final slice expression panic.
\<close>

theorem decryptSrc2_panics:
  "decryptSrc2 src [] [] = Inl DivideByZero
   \<and> extractData (CHR ''-'' # CHR ''0'' # CHR ''0'' # CHR ''1'' # rest) = Inl SliceBounds"
proof -
  have "Atoi ''-001'' = Some (- 1)" by code_simp
  then have "extractData (CHR ''-'' # CHR ''0'' # CHR ''0'' # CHR ''1'' # rest) = Inl SliceBounds"
    by (simp add: extractData_def)
  then show ?thesis by (simp add: decryptSrc2_empty_keys)
qed

text \<open>
  C5 (the code panics).  The framing returns neither the empty string nor a substring
  when the length field is negative: the text \<open>-001abcd\<close> followed by a space has a
  length field that parses as \<open>-1\<close>, \<open>4 + (-1)\<close> does not exceed its length, and the slice
  \<open>decSrc[4:3]\<close> panics.
\<close>

theorem extractData_negative_length_panics:
  "Atoi (take 4 ''-001abcd '') = Some (- 1)
   \<and> \<not> 4 + (- 1) > int (length ''-001abcd '')
   \<and> extractData ''-001abcd '' = Inl SliceBounds"
  by code_simp

section \<open>Columnar transposition: properties\<close>
































section \<open>Source selection: properties\<close>

lemma Contains_iff: "Contains s substr \<longleftrightarrow> (\<exists>a b. s = a @ substr @ b)"
proof (induction s)
  case Nil
  then show ?case by auto
next
  case (Cons c s)
  show ?case
  proof
    assume "Contains (c # s) substr"
    then consider "prefix substr (c # s)" | "Contains s substr" by auto
    then show "\<exists>a b. c # s = a @ substr @ b"
    proof cases
      case 1
      then obtain b where "c # s = substr @ b" by (auto simp: prefix_def)
      then have "c # s = [] @ substr @ b" by simp
      then show ?thesis by blast
    next
      case 2
      with Cons.IH obtain a b where "s = a @ substr @ b" by blast
      then have "c # s = (c # a) @ substr @ b" by simp
      then show ?thesis by blast
    qed
  next
    assume "\<exists>a b. c # s = a @ substr @ b"
    then obtain a b where ab: "c # s = a @ substr @ b" by blast
    show "Contains (c # s) substr"
    proof (cases a)
      case Nil
      with ab have "prefix substr (c # s)" by (simp add: prefix_def)
      then show ?thesis by simp
    next
      case (Cons x a')
      with ab have "s = a' @ substr @ b" by simp
      with Cons.IH have "Contains s substr" by blast
      then show ?thesis by simp
    qed
  qed
qed

lemma selectLoop_find:
  "selectLoop ss q d =
     (case List.find (\<lambda>s. Contains (File s) q) ss of Some s \<Rightarrow> File s | None \<Rightarrow> d)"
  by (induction ss) auto

text \<open>
  C9 (as amended).  For a non-empty source list the selected URL is the \<open>File\<close> of the
  first entry whose \<open>File\<close> contains the preferred quality as a substring, and the first
  entry's \<open>File\<close> when no entry's \<open>File\<close> contains it.  The \<open>Type\<close> field is never read.
\<close>

theorem selectStreamURL_first_file_match:
  assumes "sources \<noteq> []"
  shows "selectStreamURL sources q =
           Inr (case List.find (\<lambda>s. \<exists>a b. File s = a @ q @ b) sources of
                  Some s \<Rightarrow> File s
                | None \<Rightarrow> File (hd sources))"
proof -
  have c: "(\<lambda>s. \<exists>a b. File s = a @ q @ b) = (\<lambda>s. Contains (File s) q)"
    by (simp add: Contains_iff)
  have h: "sources ! 0 = hd sources"
    using assms by (simp add: hd_conv_nth)
  show ?thesis
    unfolding c using assms h by (simp add: selectStreamURL_def selectLoop_find)
qed

theorem selectStreamURL_first_file_match_witness:
  "selectStreamURL
     [\<lparr>File = ''https://x/360.m3u8'', Type = ''hls''\<rparr>,
      \<lparr>File = ''https://x/720.m3u8'', Type = ''hls''\<rparr>] ''720''
   = Inr ''https://x/720.m3u8''"
proof -
  have ne: "[\<lparr>File = ''https://x/360.m3u8'', Type = ''hls''\<rparr>,
      \<lparr>File = ''https://x/720.m3u8'', Type = ''hls''\<rparr>] \<noteq> []" by simp
  have c: "(\<lambda>s. \<exists>a b. File s = a @ ''720'' @ b) = (\<lambda>s. Contains (File s) ''720'')"
    by (simp add: Contains_iff)
  show ?thesis
    using selectStreamURL_first_file_match [OF ne, of "''720''"]
    unfolding c by simp
qed

text \<open>
  C9 as stated fails: an entry whose \<open>Type\<close> (but not \<open>File\<close>) contains the preferred
  quality is not selected; the first entry is.
\<close>

theorem selectStreamURL_type_counterexample:
  "Contains (Type \<lparr>File = ''https://x/b.m3u8'', Type = ''720''\<rparr>) ''720''
   \<and> \<not> Contains (Type \<lparr>File = ''https://x/a.m3u8'', Type = ''hls''\<rparr>) ''720''
   \<and> \<not> Contains (File \<lparr>File = ''https://x/a.m3u8'', Type = ''hls''\<rparr>) ''720''
   \<and> selectStreamURL
        [\<lparr>File = ''https://x/a.m3u8'', Type = ''hls''\<rparr>,
         \<lparr>File = ''https://x/b.m3u8'', Type = ''720''\<rparr>] ''720''
      = Inr ''https://x/a.m3u8''"
  by (simp add: selectStreamURL_def)

end
